theory Spec2Isabelle
  imports Main "HOL-Library.Word"
begin

unbundle bit_operations_syntax

section \<open>Data model\<close>

text \<open>
  The code units of the three encodings are the fixed-width unsigned types of the
  source: \<open>char8_t\<close>, \<open>char16_t\<close> and \<open>char32_t\<close>. Arithmetic on them wraps, and a
  \<open>static_cast\<close> to a narrower type truncates (\<open>ucast\<close>).

  A source range \<open>[begin, end)\<close> is a list of bytes; a pointer or iterator into it is an
  offset from its start. \<open>ptrdiff_t\<close> is an \<open>int\<close>: the counts of this development are
  bounded by twice the length of the source.
\<close>

type_synonym char8_t = "8 word"
type_synonym char16_t = "16 word"
type_synonym char32_t = "32 word"

section \<open>utf\_conversions.h\<close>

subsection \<open>detail::utf8\_trail\_byte and detail::utf8\_header\_byte\<close>

text \<open>
  Both functions write through the reference parameter \<open>out\<close>; the model returns the
  new value of \<open>out\<close> beside the result (unchanged where the source leaves it alone).
\<close>

definition utf8_trail_byte :: "char8_t \<Rightarrow> char32_t \<Rightarrow> bool \<times> char32_t" where
  "utf8_trail_byte inb out =
     (if inb < 0x80 \<or> 0xBF < inb then (False, out)
      else (True, push_bit 6 out OR ucast (inb AND 0x3F)))"

definition utf8_header_byte :: "char8_t \<Rightarrow> char32_t \<Rightarrow> int \<times> char32_t" where
  "utf8_header_byte inb out =
     (if inb < 0x80 then (0, ucast inb)
      else if inb < 0xC0 then (-1, out)
      else if inb < 0xE0 then (1, ucast (inb AND 0x1F))
      else if inb < 0xF0 then (2, ucast (inb AND 0x0F))
      else if inb < 0xF8 then (3, ucast (inb AND 0x7))
      else (-1, out))"

subsection \<open>convert\<close>

text \<open>
  The part of one iteration of the loop of \<open>convert\<close> that decodes one code point
  (lines 53 to 61): the header byte, the check of its count against the bytes that
  remain, and the loop over the trailing bytes. A read of the source at an offset that
  is not below its length is the outcome \<open>Decode_outside\<close>; a \<open>return -1\<close> is
  \<open>Decode_fail\<close>; otherwise the new value of \<open>u8_begin\<close> and the code point.
\<close>

datatype decode_step = Decode_outside | Decode_fail | Decoded nat char32_t

text \<open>The \<open>for\<close> loop of lines 59 to 61, with \<open>n\<close> iterations left.\<close>

fun trail_loop :: "char8_t list \<Rightarrow> nat \<Rightarrow> nat \<Rightarrow> char32_t \<Rightarrow> decode_step" where
  "trail_loop src u8_begin 0 code_point = Decoded u8_begin code_point"
| "trail_loop src u8_begin (Suc n) code_point =
     (if u8_begin < length src then
        (case utf8_trail_byte (src ! u8_begin) code_point of
           (False, _) \<Rightarrow> Decode_fail
         | (True, code_point') \<Rightarrow> trail_loop src (Suc u8_begin) n code_point')
      else Decode_outside)"

definition convert_decode :: "char8_t list \<Rightarrow> nat \<Rightarrow> decode_step" where
  "convert_decode src u8_begin =
     (if u8_begin < length src then
        (case utf8_header_byte (src ! u8_begin) 0 of
           (byte_cnt, code_point) \<Rightarrow>
             if byte_cnt < 0 \<or> byte_cnt > int (length src) - int (Suc u8_begin)
             then Decode_fail
             else trail_loop src (Suc u8_begin) (nat byte_cnt) code_point)
      else Decode_outside)"

text \<open>
  The result of \<open>convert\<close>: the returned \<open>ptrdiff_t\<close> with the units written through
  \<open>u16out\<close> in the order they were written, or a read outside the source range.
  The destination \<open>u16out\<close> is \<open>None\<close> for the null pointer and otherwise \<open>Some\<close> of
  the units written so far.
\<close>

datatype convert_result = Read_outside_source | Returns int "char16_t list"

definition written :: "char16_t list option \<Rightarrow> char16_t list" where
  "written u16out = (case u16out of None \<Rightarrow> [] | Some ws \<Rightarrow> ws)"

definition put_one :: "char32_t \<Rightarrow> char16_t list option \<Rightarrow> char16_t list option" where
  "put_one code_point u16out =
     (case u16out of None \<Rightarrow> None | Some ws \<Rightarrow> Some (ws @ [ucast code_point]))"

definition put_pair :: "char32_t \<Rightarrow> char16_t list option \<Rightarrow> char16_t list option" where
  "put_pair code_point u16out =
     (case u16out of None \<Rightarrow> None
      | Some ws \<Rightarrow>
          (let code_point' = code_point - 0x10000
           in Some (ws @ [ucast (drop_bit 10 code_point' + 0xD800),
                          ucast ((code_point' AND 0x3FF) + 0xDC00)])))"

lemma trail_loop_pos:
  "trail_loop src p n cp = Decoded p' cp' \<Longrightarrow> p' = p + n"
  by (induction src p n cp rule: trail_loop.induct)
     (auto split: if_splits prod.splits bool.splits)

lemma convert_decode_pos:
  "convert_decode src p = Decoded p' cp' \<Longrightarrow> p < p' \<and> p' \<le> length src"
  by (auto simp: convert_decode_def split: if_splits prod.splits dest!: trail_loop_pos)

function convert_loop ::
  "char8_t list \<Rightarrow> nat \<Rightarrow> char16_t list option \<Rightarrow> int \<Rightarrow> convert_result" where
  "convert_loop src u8_begin u16out outstr_size =
     (if u8_begin < length src then
        (case convert_decode src u8_begin of
           Decode_outside \<Rightarrow> Read_outside_source
         | Decode_fail \<Rightarrow> Returns (-1) (written u16out)
         | Decoded u8_begin' code_point \<Rightarrow>
             if code_point < 0xFFFF
             then convert_loop src u8_begin' (put_one code_point u16out) (outstr_size + 1)
             else convert_loop src u8_begin' (put_pair code_point u16out) (outstr_size + 2))
      else Returns outstr_size (written u16out))"
  by pat_completeness auto
termination
  by (relation "measure (\<lambda>(src, p, u16out, n). length src - p)")
     (auto dest!: convert_decode_pos)

definition convert :: "char8_t list \<Rightarrow> char16_t list option \<Rightarrow> convert_result" where
  "convert src u16out = convert_loop src 0 u16out 0"

section \<open>unic.h\<close>

subsection \<open>Exceptions\<close>

text \<open>
  \<open>utf_positioned_error\<close> carries the position where the error happened and the
  message of the \<open>runtime_error\<close> it derives from. The position is an iterator of the
  source (an offset into the source bytes) when the decoder or a size estimator throws,
  and the output iterator (the number of units written so far) when
  \<open>to_utf16_iter::append\<close> throws.

  Dereferencing an iterator that does not point into the source is undefined behaviour
  in the source language, not an exception; it is kept apart as \<open>outside_source\<close>.
\<close>

datatype failure =
    utf_positioned_error (error_position: nat) (what: string)
  | outside_source nat

subsection \<open>from\_utf8\_range::iterator\<close>

record iterator =
  m_begin :: nat
  m_end :: nat

text \<open>
  \<open>std::countl_one\<close> of an \<open>unsigned char\<close>: the number of consecutive one bits,
  starting from the most significant bit.
\<close>

definition countl_one :: "char8_t \<Rightarrow> int" where
  "countl_one x = int (length (takeWhile (bit x) [7, 6, 5, 4, 3, 2, 1, 0]))"

definition compute_byte_count :: "char8_t \<Rightarrow> int" where
  "compute_byte_count header =
     (let cnt = countl_one header
      in if cnt = 0 then 1
         else if cnt < 2 \<or> cnt > 6 then -1
         else cnt)"

text \<open>\<open>operator++()\<close>; the result is the iterator after the call.\<close>

definition operator_inc :: "char8_t list \<Rightarrow> iterator \<Rightarrow> failure + iterator" where
  "operator_inc src it =
     (if m_begin it < length src then
        (let cnt = compute_byte_count (src ! m_begin it)
         in if cnt = -1 \<or> cnt > int (m_end it) - int (m_begin it)
            then Inl (utf_positioned_error (m_begin it) ''Length in header byte is wrong'')
            else Inr (it\<lparr>m_begin := m_begin it + nat cnt\<rparr>))
      else Inl (outside_source (m_begin it)))"

text \<open>The \<open>for\<close> loop of \<open>operator*\<close> (lines 147 to 154), with \<open>n\<close> iterations left.\<close>

fun extract_rest :: "char8_t list \<Rightarrow> nat \<Rightarrow> nat \<Rightarrow> char32_t \<Rightarrow> failure + char32_t" where
  "extract_rest src begin_pos 0 code_point = Inr code_point"
| "extract_rest src begin_pos (Suc n) code_point =
     (if begin_pos < length src then
        (if src ! begin_pos < 0x80 \<or> 0xBF < src ! begin_pos
         then Inl (utf_positioned_error begin_pos ''Illegal trail byte'')
         else extract_rest src (Suc begin_pos) n
                (push_bit 6 code_point OR ucast (src ! begin_pos AND 0x3F)))
      else Inl (outside_source begin_pos))"

definition operator_star :: "char8_t list \<Rightarrow> iterator \<Rightarrow> failure + char32_t" where
  "operator_star src it =
     (if m_begin it < length src then
        (let cnt = compute_byte_count (src ! m_begin it)
         in if cnt = -1 \<or> cnt > int (m_end it) - int (m_begin it)
            then Inl (utf_positioned_error (m_begin it) ''Length in header byte is wrong'')
            else if cnt = 1 then Inr (ucast (src ! m_begin it))
            else extract_rest src (Suc (m_begin it)) (nat (cnt - 1))
                   (ucast (src ! m_begin it AND drop_bit (nat (cnt + 1)) 0xFF)))
      else Inl (outside_source (m_begin it)))"

text \<open>\<open>operator==\<close> compares the cursors only.\<close>

definition operator_eq :: "iterator \<Rightarrow> iterator \<Rightarrow> bool" where
  "operator_eq a b = (m_begin a = m_begin b)"

text \<open>\<open>from_utf8_range::begin()\<close> and \<open>end()\<close> of the range over the whole of \<open>src\<close>.\<close>

definition range_begin :: "char8_t list \<Rightarrow> iterator" where
  "range_begin src = \<lparr>m_begin = 0, m_end = length src\<rparr>"

definition range_end :: "char8_t list \<Rightarrow> iterator" where
  "range_end src = \<lparr>m_begin = length src, m_end = length src\<rparr>"

subsection \<open>to\_utf16\_iter\<close>

text \<open>
  \<open>to_utf16_iter::append\<close>. The output iterator \<open>m_iter\<close> is the list of the units
  written through it so far.
\<close>

definition to_utf16_iter_append :: "char16_t list \<Rightarrow> char32_t \<Rightarrow> failure + char16_t list" where
  "to_utf16_iter_append m_iter code_point =
     (if code_point \<le> 0xFFFF then Inr (m_iter @ [ucast code_point])
      else if code_point \<le> 0x10FFFF then
        (let code_point' = code_point - 0x10000
         in Inr (m_iter @ [ucast (drop_bit 10 code_point' + 0xD800),
                           ucast ((code_point' AND 0x3FF) + 0xDC00)]))
      else Inl (utf_positioned_error (length m_iter) ''Out of UTF-16 range''))"

subsection \<open>to\_utf16\_size\<close>

text \<open>
  The body of the loop of \<open>to_utf16_size\<close> (lines 265 to 271), at the iterator
  position \<open>beg\<close>, with the local variable \<open>size\<close> as \<open>sz\<close>. The function is a
  template over the iterator type; it is instantiated below
  for a sequence of code points and for a \<open>from_utf8_range\<close>.
\<close>

definition to_utf16_size_body :: "nat \<Rightarrow> int \<Rightarrow> char32_t \<Rightarrow> failure + int" where
  "to_utf16_size_body beg sz code_point =
     (if code_point \<le> 0xFFFF then Inr (sz + 1)
      else if code_point \<le> 0x10FFFF then Inr (sz + 2)
      else Inl (utf_positioned_error beg ''Out of UTF-16 range''))"

fun to_utf16_size_u32_loop :: "char32_t list \<Rightarrow> nat \<Rightarrow> int \<Rightarrow> failure + int" where
  "to_utf16_size_u32_loop [] beg sz = Inr sz"
| "to_utf16_size_u32_loop (code_point # rest) beg sz =
     (case to_utf16_size_body beg sz code_point of
        Inl e \<Rightarrow> Inl e
      | Inr sz' \<Rightarrow> to_utf16_size_u32_loop rest (Suc beg) sz')"

definition to_utf16_size_u32 :: "char32_t list \<Rightarrow> failure + int" where
  "to_utf16_size_u32 u32range = to_utf16_size_u32_loop u32range 0 0"

lemma countl_one_nonneg: "0 \<le> countl_one h"
  by (simp add: countl_one_def)

lemma compute_byte_count_pos: "compute_byte_count h \<noteq> -1 \<Longrightarrow> 1 \<le> compute_byte_count h"
  using countl_one_nonneg [of h] by (auto simp: compute_byte_count_def Let_def split: if_splits)

lemma operator_inc_Inr:
  "operator_inc src it = Inr it' \<Longrightarrow>
     m_begin it < m_begin it' \<and> m_begin it' \<le> m_end it \<and> m_end it' = m_end it"
  using compute_byte_count_pos [of "src ! m_begin it"]
  by (auto simp: operator_inc_def Let_def split: if_splits)

function to_utf16_size_u8_loop ::
  "char8_t list \<Rightarrow> iterator \<Rightarrow> iterator \<Rightarrow> int \<Rightarrow> failure + int" where
  "to_utf16_size_u8_loop src beg end_it sz =
     (if \<not> operator_eq beg end_it then
        (case operator_star src beg of
           Inl e \<Rightarrow> Inl e
         | Inr code_point \<Rightarrow>
             (case to_utf16_size_body (m_begin beg) sz code_point of
                Inl e \<Rightarrow> Inl e
              | Inr sz' \<Rightarrow>
                  (case operator_inc src beg of
                     Inl e \<Rightarrow> Inl e
                   | Inr beg' \<Rightarrow> to_utf16_size_u8_loop src beg' end_it sz')))
      else Inr sz)"
  by pat_completeness auto
termination
  by (relation "measure (\<lambda>(src, beg, end_it, sz). m_end beg - m_begin beg)")
     (auto dest!: operator_inc_Inr)

definition to_utf16_size :: "char8_t list \<Rightarrow> failure + int" where
  "to_utf16_size src = to_utf16_size_u8_loop src (range_begin src) (range_end src) 0"

subsection \<open>to\_utf32 and to\_utf16\<close>

text \<open>
  \<open>std::ranges::copy\<close> from a \<open>from_utf8_range\<close> to an output iterator: while
  \<open>first != last\<close>, \<open>*result = *first\<close>, then \<open>++first\<close> and \<open>++result\<close>. The
  output iterator is a state \<open>out\<close> with the function \<open>assign\<close> that writes one code
  point through it.
\<close>

function ranges_copy ::
  "('o \<Rightarrow> char32_t \<Rightarrow> failure + 'o) \<Rightarrow> char8_t list \<Rightarrow> iterator \<Rightarrow> iterator \<Rightarrow> 'o
     \<Rightarrow> failure + 'o" where
  "ranges_copy assign src first_it last_it out =
     (if \<not> operator_eq first_it last_it then
        (case operator_star src first_it of
           Inl e \<Rightarrow> Inl e
         | Inr code_point \<Rightarrow>
             (case assign out code_point of
                Inl e \<Rightarrow> Inl e
              | Inr out' \<Rightarrow>
                  (case operator_inc src first_it of
                     Inl e \<Rightarrow> Inl e
                   | Inr first_it' \<Rightarrow> ranges_copy assign src first_it' last_it out')))
      else Inr out)"
  by pat_completeness auto
termination
  by (relation "measure (\<lambda>(assign, src, first_it, last_it, out). m_end first_it - m_begin first_it)")
     (auto dest!: operator_inc_Inr)

definition to_utf32 ::
  "('o \<Rightarrow> char32_t \<Rightarrow> failure + 'o) \<Rightarrow> char8_t list \<Rightarrow> 'o \<Rightarrow> failure + 'o" where
  "to_utf32 assign src out = ranges_copy assign src (range_begin src) (range_end src) out"

text \<open>An output iterator that appends to a sequence of code points.\<close>

definition push_back :: "char32_t list \<Rightarrow> char32_t \<Rightarrow> failure + char32_t list" where
  "push_back out code_point = Inr (out @ [code_point])"

definition to_utf16 :: "char8_t list \<Rightarrow> char16_t list \<Rightarrow> failure + char16_t list" where
  "to_utf16 src out = to_utf32 to_utf16_iter_append src out"

declare convert_loop.simps [simp del]
declare to_utf16_size_u8_loop.simps [simp del]
declare ranges_copy.simps [simp del]

section \<open>Auxiliary definitions for the statements\<close>

text \<open>The result of a run of \<open>convert\<close> with the written units left out.\<close>

fun count_only :: "convert_result \<Rightarrow> convert_result" where
  "count_only Read_outside_source = Read_outside_source"
| "count_only (Returns n out) = Returns n []"

text \<open>The position that a failure carries.\<close>

fun failure_position :: "failure \<Rightarrow> nat" where
  "failure_position (utf_positioned_error p msg) = p"
| "failure_position (outside_source p) = p"

text \<open>
  The two exceptions of \<open>operator*\<close>, and the test of its loop on a trailing byte.
\<close>

definition header_error :: "iterator \<Rightarrow> failure" where
  "header_error it = utf_positioned_error (m_begin it) ''Length in header byte is wrong''"

definition trail_error :: "nat \<Rightarrow> failure" where
  "trail_error k = utf_positioned_error k ''Illegal trail byte''"

definition outside_trail_range :: "char8_t \<Rightarrow> bool" where
  "outside_trail_range b = (b < 0x80 \<or> 0xBF < b)"

text \<open>
  Writing the code points of a sequence, one after the other, through an output
  iterator, up to the first failure.
\<close>

fun assign_all :: "('o \<Rightarrow> char32_t \<Rightarrow> failure + 'o) \<Rightarrow> char32_t list \<Rightarrow> 'o \<Rightarrow> failure + 'o" where
  "assign_all assign [] out = Inr out"
| "assign_all assign (code_point # rest) out =
     (case assign out code_point of
        Inl e \<Rightarrow> Inl e
      | Inr out' \<Rightarrow> assign_all assign rest out')"

section \<open>Reference UTF-8 encoder\<close>

text \<open>
  The repository decodes UTF-8 and has no UTF-8 encoder. The round-trip property is
  stated against the standard encoding of a code point in one to four bytes
  (RFC 3629), which is this reference definition.
\<close>

definition utf8_encode :: "char32_t \<Rightarrow> char8_t list" where
  "utf8_encode cp =
     (if cp < 0x80 then [ucast cp]
      else if cp < 0x800 then
        [0xC0 OR ucast (drop_bit 6 cp), 0x80 OR ucast (cp AND 0x3F)]
      else if cp < 0x10000 then
        [0xE0 OR ucast (drop_bit 12 cp), 0x80 OR ucast (drop_bit 6 cp AND 0x3F),
         0x80 OR ucast (cp AND 0x3F)]
      else
        [0xF0 OR ucast (drop_bit 18 cp), 0x80 OR ucast (drop_bit 12 cp AND 0x3F),
         0x80 OR ucast (drop_bit 6 cp AND 0x3F), 0x80 OR ucast (cp AND 0x3F)])"

section \<open>The two modes of convert\<close>

lemma trail_loop_inside:
  "p + n \<le> length src \<Longrightarrow> trail_loop src p n cp \<noteq> Decode_outside"
  by (induction src p n cp rule: trail_loop.induct)
     (auto split: prod.splits bool.splits)

lemma convert_decode_inside:
  "p < length src \<Longrightarrow> convert_decode src p \<noteq> Decode_outside"
  by (auto simp: convert_decode_def split: prod.splits dest!: trail_loop_inside [THEN notE, rotated])

lemma convert_loop_inside:
  "convert_loop src p u16out k \<noteq> Read_outside_source"
proof (induction src p u16out k rule: convert_loop.induct)
  case (1 src p u16out k)
  show ?case
  proof (cases "p < length src")
    case False
    then show ?thesis by (simp add: convert_loop.simps [of src p])
  next
    case True
    note inside = convert_decode_inside [OF True]
    show ?thesis
    proof (cases "convert_decode src p")
      case Decode_outside
      with inside show ?thesis by simp
    next
      case Decode_fail
      with True show ?thesis by (simp add: convert_loop.simps [of src p])
    next
      case (Decoded p' cp)
      with True "1.IH" [OF True Decoded] show ?thesis
        by (simp add: convert_loop.simps [of src p])
    qed
  qed
qed

text \<open>
  C10. \<open>convert\<close> never reads a byte outside the source range: whatever the source and
  the destination, the run does not end in a read at an offset that is not below the
  length of the source, so every read of the model is at an index inside the list.
\<close>

theorem convert_reads_inside_source: "convert src u16out \<noteq> Read_outside_source"
  unfolding convert_def by (rule convert_loop_inside)

lemma convert_loop_dry:
  "convert_loop src p None k = count_only (convert_loop src p (Some ws) k)"
proof (induction src p "Some ws" k arbitrary: ws rule: convert_loop.induct)
  case (1 src p k)
  show ?case
  proof (cases "p < length src")
    case False
    then show ?thesis by (simp add: convert_loop.simps [of src p] written_def)
  next
    case True
    show ?thesis
    proof (cases "convert_decode src p")
      case Decode_outside
      with True show ?thesis by (simp add: convert_loop.simps [of src p])
    next
      case Decode_fail
      with True show ?thesis by (simp add: convert_loop.simps [of src p] written_def)
    next
      case (Decoded p' cp)
      show ?thesis
      proof (cases "cp < 0xFFFF")
        case lt: True
        have "convert_loop src p' None (k + 1) =
              count_only (convert_loop src p' (Some (ws @ [ucast cp])) (k + 1))"
          using "1.hyps"(1) [OF True Decoded lt, of "ws @ [ucast cp]"]
          by (simp add: put_one_def)
        with True Decoded lt show ?thesis
          by (simp add: convert_loop.simps [of src p] put_one_def)
      next
        case ge: False
        have "convert_loop src p' None (k + 2) =
              count_only (convert_loop src p' (put_pair cp (Some ws)) (k + 2))"
          using "1.hyps"(2) [OF True Decoded ge, of "the (put_pair cp (Some ws))"]
          by (simp add: put_pair_def Let_def)
        with True Decoded ge show ?thesis
          by (simp add: convert_loop.simps [of src p] put_pair_def)
      qed
    qed
  qed
qed


lemma convert_loop_count:
  "convert_loop src p (Some ws) k = Returns n out \<Longrightarrow>
     n = -1 \<or> (k \<le> n \<and> int (length out) = int (length ws) + (n - k))"
proof (induction src p "Some ws" k arbitrary: ws rule: convert_loop.induct)
  case (1 src p k)
  note run = "1.prems"
  show ?case
  proof (cases "p < length src")
    case False
    with run show ?thesis by (simp add: convert_loop.simps [of src p] written_def)
  next
    case True
    show ?thesis
    proof (cases "convert_decode src p")
      case Decode_outside
      with True run show ?thesis by (simp add: convert_loop.simps [of src p])
    next
      case Decode_fail
      with True run show ?thesis by (simp add: convert_loop.simps [of src p])
    next
      case (Decoded p' cp)
      show ?thesis
      proof (cases "cp < 0xFFFF")
        case lt: True
        from True Decoded lt run
        have "convert_loop src p' (Some (ws @ [ucast cp])) (k + 1) = Returns n out"
          by (simp add: convert_loop.simps [of src p] put_one_def)
        from "1.hyps"(1) [OF True Decoded lt _ this]
        show ?thesis by (auto simp: put_one_def)
      next
        case ge: False
        define cp' where "cp' = cp - 0x10000"
        define ws' where "ws' = ws @ [ucast (drop_bit 10 cp' + 0xD800) :: char16_t,
                                      ucast ((cp' AND 0x3FF) + 0xDC00)]"
        have pp: "put_pair cp (Some ws) = Some ws'"
          by (simp add: put_pair_def Let_def ws'_def cp'_def)
        from True Decoded ge run
        have "convert_loop src p' (Some ws') (k + 2) = Returns n out"
          by (simp add: convert_loop.simps [of src p] pp)
        from "1.hyps"(2) [OF True Decoded ge pp this]
        show ?thesis by (auto simp: ws'_def)
      qed
    qed
  qed
qed

text \<open>
  C5. For every source, \<open>convert\<close> with a null destination returns the same value as
  \<open>convert\<close> with a destination: both return the sentinel -1, or both return the same
  count, and then the number of units written through the destination is that count.
\<close>

theorem convert_modes_agree:
  "\<exists>n out. convert src (Some []) = Returns n out \<and> convert src None = Returns n [] \<and>
     (n = -1 \<or> (0 \<le> n \<and> int (length out) = n))"
proof -
  obtain n out where fill: "convert src (Some []) = Returns n out"
    using convert_loop_inside [of src 0 "Some []" 0]
    by (cases "convert src (Some [])") (auto simp: convert_def)
  have "convert src None = Returns n []"
    using convert_loop_dry [of src 0 0 "[]"] fill by (simp add: convert_def)
  moreover have "n = -1 \<or> (0 \<le> n \<and> int (length out) = n)"
    using convert_loop_count [of src 0 "[]" 0 n out] fill by (simp add: convert_def)
  ultimately show ?thesis using fill by blast
qed

section \<open>The header classifiers\<close>

text \<open>A property of all bytes follows from its 256 instances.\<close>

lemma byte_all: "(\<forall>n\<in>set [0..<256]. P (word_of_nat n :: 8 word)) \<Longrightarrow> P x"
proof -
  assume a: "\<forall>n\<in>set [0..<256]. P (word_of_nat n :: 8 word)"
  have "unat x < 256" using unsigned_less [of x] by simp
  then have "unat x \<in> set [0..<256]" by simp
  with a have "P (word_of_nat (unat x))" by blast
  then show ?thesis by simp
qed

text \<open>The byte ranges of the classifiers, read off the leading bits.\<close>

lemma byte_ranges_bits:
  fixes h :: char8_t
  shows "(h < 0x80) = (\<not> bit h 7) \<and>
    (h < 0xC0) = (\<not> (bit h 7 \<and> bit h 6)) \<and>
    (h < 0xE0) = (\<not> (bit h 7 \<and> bit h 6 \<and> bit h 5)) \<and>
    (h < 0xF0) = (\<not> (bit h 7 \<and> bit h 6 \<and> bit h 5 \<and> bit h 4)) \<and>
    (h < 0xF8) = (\<not> (bit h 7 \<and> bit h 6 \<and> bit h 5 \<and> bit h 4 \<and> bit h 3)) \<and>
    (h < 0xFC) = (\<not> (bit h 7 \<and> bit h 6 \<and> bit h 5 \<and> bit h 4 \<and> bit h 3 \<and> bit h 2)) \<and>
    (h < 0xFE) =
      (\<not> (bit h 7 \<and> bit h 6 \<and> bit h 5 \<and> bit h 4 \<and> bit h 3 \<and> bit h 2 \<and> bit h 1)) \<and>
    (0xBF < h) = (bit h 7 \<and> bit h 6)"
  apply (rule byte_all [of _ h])
  apply code_simp
  done

lemma compute_byte_count_ranges:
  "compute_byte_count h =
     (if h < 0x80 then 1 else if h < 0xC0 then -1 else if h < 0xE0 then 2
      else if h < 0xF0 then 3 else if h < 0xF8 then 4 else if h < 0xFC then 5
      else if h < 0xFE then 6 else -1)"
  by (simp add: byte_ranges_bits compute_byte_count_def countl_one_def)

text \<open>
  The two classifiers on every header byte. The classifier of \<open>convert\<close> gives the
  header bytes \<open>00\<close> to \<open>7F\<close> no trailing byte, \<open>C0\<close> to \<open>DF\<close> one, \<open>E0\<close>
  to \<open>EF\<close> two and \<open>F0\<close> to \<open>F7\<close> three, and is invalid (-1) on \<open>80\<close> to
  \<open>BF\<close> and from \<open>F8\<close> on. The classifier of the lazy iterator returns the total
  length of the sequence; it is that mapping (1 + the trailing count) on the header
  bytes below \<open>F8\<close> and on \<open>FE\<close> and \<open>FF\<close>, and it gives the header bytes
  \<open>F8\<close> to \<open>FB\<close> a length of 5 and \<open>FC\<close> and \<open>FD\<close> a length of 6.
\<close>

lemma classifiers_mapping:
  "fst (utf8_header_byte h out) =
     (if h < 0x80 then 0 else if h < 0xC0 then -1 else if h < 0xE0 then 1
      else if h < 0xF0 then 2 else if h < 0xF8 then 3 else -1) \<and>
   compute_byte_count h =
     (if h < 0x80 then 1 else if h < 0xC0 then -1 else if h < 0xE0 then 2
      else if h < 0xF0 then 3 else if h < 0xF8 then 4 else if h < 0xFC then 5
      else if h < 0xFE then 6 else -1)"
  by (simp add: utf8_header_byte_def compute_byte_count_ranges)

text \<open>
  C3, at the header byte \<open>F8\<close>: the classifier of \<open>convert\<close> reports it invalid,
  and \<open>convert\<close> returns -1 on \<open>F8 80 80 80 80\<close>; the byte-count classifier of
  the lazy iterator gives it a sequence of 5 bytes, and \<open>operator*\<close> decodes
  \<open>F8 80 80 80 80\<close> to the code point 0 instead of throwing. The same holds at
  \<open>FC\<close>, with a sequence of 6 bytes.
\<close>

theorem header_F8_classifiers_differ:
  "fst (utf8_header_byte 0xF8 0) = -1 \<and> compute_byte_count 0xF8 = 5 \<and>
   convert [0xF8, 0x80, 0x80, 0x80, 0x80] None = Returns (-1) [] \<and>
   operator_star [0xF8, 0x80, 0x80, 0x80, 0x80] (range_begin [0xF8, 0x80, 0x80, 0x80, 0x80]) =
     Inr 0 \<and>
   to_utf32 push_back [0xF8, 0x80, 0x80, 0x80, 0x80] [] = Inr [0] \<and>
   fst (utf8_header_byte 0xFC 0) = -1 \<and> compute_byte_count 0xFC = 6"
  by code_simp

section \<open>Code points at and above the ends of the ranges\<close>

text \<open>
  The encoder and the size estimators of \<open>unic.h\<close> give one unit, equal to the code
  point, to every code point up to \<open>0xFFFF\<close>, and throw on every code point above
  \<open>0x10FFFF\<close>.
\<close>

lemma to_utf16_iter_append_one_unit:
  "code_point \<le> 0xFFFF \<Longrightarrow>
     to_utf16_iter_append m_iter code_point = Inr (m_iter @ [ucast code_point]) \<and>
     unat (ucast code_point :: char16_t) = unat code_point"
proof -
  assume le: "code_point \<le> 0xFFFF"
  then have "unat code_point \<le> 65535" by (simp add: word_le_nat_alt)
  then have "unat (ucast code_point :: char16_t) = unat code_point"
    by (simp add: unsigned_ucast_eq take_bit_nat_eq_self_iff)
  with le show ?thesis by (simp add: to_utf16_iter_append_def)
qed

lemma to_utf16_size_body_one_unit:
  "code_point \<le> 0xFFFF \<Longrightarrow> to_utf16_size_body beg sz code_point = Inr (sz + 1)"
  by (simp add: to_utf16_size_body_def)

lemma to_utf16_size_u32_one_unit:
  "code_point \<le> 0xFFFF \<Longrightarrow> to_utf16_size_u32 [code_point] = Inr 1"
  by (simp add: to_utf16_size_u32_def to_utf16_size_body_def)

lemma to_utf16_iter_append_out_of_range:
  "0x10FFFF < code_point \<Longrightarrow>
     to_utf16_iter_append m_iter code_point =
       Inl (utf_positioned_error (length m_iter) ''Out of UTF-16 range'')"
  by (auto simp: to_utf16_iter_append_def word_le_nat_alt word_less_nat_alt)

lemma to_utf16_size_body_out_of_range:
  "0x10FFFF < code_point \<Longrightarrow>
     to_utf16_size_body beg sz code_point =
       Inl (utf_positioned_error beg ''Out of UTF-16 range'')"
  by (auto simp: to_utf16_size_body_def word_le_nat_alt word_less_nat_alt)

text \<open>
  One iteration of the loop of \<open>convert\<close>: one unit for a code point below
  \<open>0xFFFF\<close>, two units for every other code point.
\<close>

lemma convert_loop_one_unit:
  "u8_begin < length src \<Longrightarrow> convert_decode src u8_begin = Decoded u8_begin' code_point \<Longrightarrow>
     code_point < 0xFFFF \<Longrightarrow>
     convert_loop src u8_begin u16out outstr_size =
       convert_loop src u8_begin' (put_one code_point u16out) (outstr_size + 1)"
  by (simp add: convert_loop.simps [of src u8_begin])

lemma convert_loop_two_units:
  "u8_begin < length src \<Longrightarrow> convert_decode src u8_begin = Decoded u8_begin' code_point \<Longrightarrow>
     \<not> code_point < 0xFFFF \<Longrightarrow>
     convert_loop src u8_begin u16out outstr_size =
       convert_loop src u8_begin' (put_pair code_point u16out) (outstr_size + 2)"
  by (simp add: convert_loop.simps [of src u8_begin])

text \<open>
  C1, at the code point \<open>0xFFFF\<close> (the bytes \<open>EF BF BF\<close>): \<open>convert\<close> tests
  \<open>code_point < 0xFFFF\<close>, so it counts two units and writes the pair
  \<open>D7FF DFFF\<close>, where the encoder and the size estimator of \<open>unic.h\<close> test
  \<open>code_point <= 0xFFFF\<close> and give the one unit \<open>FFFF\<close>.
\<close>

theorem convert_U_FFFF_two_units:
  "convert_decode [0xEF, 0xBF, 0xBF] 0 = Decoded 3 0xFFFF \<and>
   convert [0xEF, 0xBF, 0xBF] None = Returns 2 [] \<and>
   convert [0xEF, 0xBF, 0xBF] (Some []) = Returns 2 [0xD7FF, 0xDFFF] \<and>
   to_utf16 [0xEF, 0xBF, 0xBF] [] = Inr [0xFFFF] \<and>
   to_utf16_size [0xEF, 0xBF, 0xBF] = Inr 1"
  by code_simp

text \<open>
  C2, at the code point \<open>0x110000\<close> (the bytes \<open>F4 90 80 80\<close>): \<open>convert\<close> has no
  test against \<open>0x10FFFF\<close>, so it counts two units and writes \<open>DC00 DC00\<close>
  instead of returning -1, where the encoder and the size estimator of \<open>unic.h\<close> throw.
\<close>

theorem convert_U_110000_not_rejected:
  "convert_decode [0xF4, 0x90, 0x80, 0x80] 0 = Decoded 4 0x110000 \<and>
   convert [0xF4, 0x90, 0x80, 0x80] None = Returns 2 [] \<and>
   convert [0xF4, 0x90, 0x80, 0x80] (Some []) = Returns 2 [0xDC00, 0xDC00] \<and>
   to_utf16 [0xF4, 0x90, 0x80, 0x80] [] =
     Inl (utf_positioned_error 0 ''Out of UTF-16 range'') \<and>
   to_utf16_size [0xF4, 0x90, 0x80, 0x80] =
     Inl (utf_positioned_error 0 ''Out of UTF-16 range'')"
  by code_simp

section \<open>Advancing and dereferencing the lazy iterator\<close>

lemma extract_rest_position:
  "extract_rest src b n cp = Inl e \<Longrightarrow> b \<le> failure_position e"
  by (induction src b n cp rule: extract_rest.induct) (auto split: if_splits)

lemma operator_inc_fails_iff:
  "(operator_inc src it = Inl e) =
     (operator_star src it = Inl e \<and> failure_position e = m_begin it)"
proof (cases "m_begin it < length src")
  case False
  then show ?thesis by (auto simp: operator_inc_def operator_star_def)
next
  case True
  define cnt where "cnt = compute_byte_count (src ! m_begin it)"
  show ?thesis
  proof (cases "cnt = -1 \<or> cnt > int (m_end it) - int (m_begin it)")
    case bad: True
    with True show ?thesis
      by (auto simp: operator_inc_def operator_star_def Let_def cnt_def)
  next
    case ok: False
    then have inc: "operator_inc src it \<noteq> Inl e"
      using True by (auto simp: operator_inc_def Let_def cnt_def)
    have "failure_position e \<noteq> m_begin it" if "operator_star src it = Inl e"
    proof -
      from that ok True have "extract_rest src (Suc (m_begin it)) (nat (cnt - 1))
          (ucast (src ! m_begin it AND drop_bit (nat (cnt + 1)) 0xFF)) = Inl e"
        by (auto simp: operator_star_def Let_def cnt_def split: if_splits)
      from extract_rest_position [OF this] show ?thesis by simp
    qed
    with inc show ?thesis by blast
  qed
qed

lemma operator_inc_moves:
  "operator_inc src it = Inr it' \<Longrightarrow>
     1 \<le> compute_byte_count (src ! m_begin it) \<and>
     it' = it\<lparr>m_begin := m_begin it + nat (compute_byte_count (src ! m_begin it))\<rparr>"
  using compute_byte_count_pos [of "src ! m_begin it"]
  by (auto simp: operator_inc_def Let_def split: if_splits)

lemma operator_star_Inr_inc:
  "operator_star src it = Inr cp \<Longrightarrow> \<exists>it'. operator_inc src it = Inr it'"
  by (auto simp: operator_inc_def operator_star_def Let_def split: if_splits)

text \<open>
  A sequence whose header is valid and not truncated, with a trailing byte outside
  \<open>[0x80, 0xBF]\<close>: \<open>operator*\<close> throws at the first such byte, and
  \<open>operator++\<close> moves over the whole sequence.
\<close>

lemma extract_rest_bad_byte:
  "b \<le> k \<Longrightarrow> k < b + n \<Longrightarrow> b + n \<le> length src \<Longrightarrow> outside_trail_range (src ! k) \<Longrightarrow>
     \<exists>k'. b \<le> k' \<and> k' \<le> k \<and> extract_rest src b n cp = Inl (trail_error k') \<and>
       outside_trail_range (src ! k') \<and>
       (\<forall>j. b \<le> j \<and> j < k' \<longrightarrow> \<not> outside_trail_range (src ! j))"
proof (induction src b n cp rule: extract_rest.induct)
  case (1 src b cp)
  then show ?case by simp
next
  case (2 src b n cp)
  from "2.prems" have inside: "b < length src" by simp
  show ?case
  proof (cases "outside_trail_range (src ! b)")
    case True
    with inside have "extract_rest src b (Suc n) cp = Inl (trail_error b)"
      by (simp add: outside_trail_range_def trail_error_def)
    with True "2.prems"(1) show ?thesis
      by (intro exI [of _ b]) (auto simp del: extract_rest.simps)
  next
    case False
    with "2.prems" have "b \<noteq> k" by auto
    with "2.prems" have k: "Suc b \<le> k" "k < Suc b + n" "Suc b + n \<le> length src"
      by simp_all
    from False have ok: "\<not> (src ! b < 0x80 \<or> 0xBF < src ! b)"
      by (simp add: outside_trail_range_def)
    from "2.IH" [OF inside ok k "2.prems"(4)]
    obtain k' where k': "Suc b \<le> k'" "k' \<le> k"
      "extract_rest src (Suc b) n (push_bit 6 cp OR ucast (src ! b AND 0x3F)) =
         Inl (trail_error k')"
      "outside_trail_range (src ! k')"
      "\<forall>j. Suc b \<le> j \<and> j < k' \<longrightarrow> \<not> outside_trail_range (src ! j)"
      by blast
    have run: "extract_rest src b (Suc n) cp = Inl (trail_error k')"
      using inside ok k'(3) by simp
    have "\<forall>j. b \<le> j \<and> j < k' \<longrightarrow> \<not> outside_trail_range (src ! j)"
    proof (intro allI impI)
      fix j assume "b \<le> j \<and> j < k'"
      then have "j = b \<or> (Suc b \<le> j \<and> j < k')" by arith
      with False k'(5) show "\<not> outside_trail_range (src ! j)" by blast
    qed
    with k' run show ?thesis by (intro exI [of _ k']) simp
  qed
qed

lemma bad_trailing_byte_only:
  assumes range: "m_begin it < m_end it" "m_end it \<le> length src"
    and header: "compute_byte_count (src ! m_begin it) \<noteq> -1"
      "compute_byte_count (src ! m_begin it) \<le> int (m_end it) - int (m_begin it)"
    and k: "m_begin it < k" "int k < int (m_begin it) + compute_byte_count (src ! m_begin it)"
      "src ! k < 0x80 \<or> 0xBF < src ! k"
  shows "operator_inc src it =
      Inr (it\<lparr>m_begin := m_begin it + nat (compute_byte_count (src ! m_begin it))\<rparr>) \<and>
    (\<exists>k'. m_begin it < k' \<and> k' \<le> k \<and>
       operator_star src it = Inl (utf_positioned_error k' ''Illegal trail byte'') \<and>
       (src ! k' < 0x80 \<or> 0xBF < src ! k') \<and>
       (\<forall>j. m_begin it < j \<and> j < k' \<longrightarrow> \<not> (src ! j < 0x80 \<or> 0xBF < src ! j)))"
proof -
  let ?cnt = "compute_byte_count (src ! m_begin it)"
  from range have inside: "m_begin it < length src" by simp
  from header have ok: "\<not> (?cnt = -1 \<or> ?cnt > int (m_end it) - int (m_begin it))" by simp
  from inside ok have inc: "operator_inc src it = Inr (it\<lparr>m_begin := m_begin it + nat ?cnt\<rparr>)"
    by (simp add: operator_inc_def Let_def)
  from k(1,2) have many: "?cnt \<noteq> 1" by auto
  from inside ok many
  have star: "operator_star src it = extract_rest src (Suc (m_begin it)) (nat (?cnt - 1))
      (ucast (src ! m_begin it AND drop_bit (nat (?cnt + 1)) 0xFF))"
    by (simp add: operator_star_def Let_def)
  from k(1) have b: "Suc (m_begin it) \<le> k" by simp
  from k(2) have n: "k < Suc (m_begin it) + nat (?cnt - 1)" by simp
  from header range have len: "Suc (m_begin it) + nat (?cnt - 1) \<le> length src" by simp
  from k(3) have bad: "outside_trail_range (src ! k)" by (simp add: outside_trail_range_def)
  from extract_rest_bad_byte [OF b n len bad,
      of "ucast (src ! m_begin it AND drop_bit (nat (?cnt + 1)) 0xFF)"]
  obtain k' where "Suc (m_begin it) \<le> k'" "k' \<le> k"
    "operator_star src it = Inl (trail_error k')" "outside_trail_range (src ! k')"
    "\<forall>j. Suc (m_begin it) \<le> j \<and> j < k' \<longrightarrow> \<not> outside_trail_range (src ! j)"
    unfolding star by blast
  then have "m_begin it < k' \<and> k' \<le> k \<and>
       operator_star src it = Inl (utf_positioned_error k' ''Illegal trail byte'') \<and>
       (src ! k' < 0x80 \<or> 0xBF < src ! k') \<and>
       (\<forall>j. m_begin it < j \<and> j < k' \<longrightarrow> \<not> (src ! j < 0x80 \<or> 0xBF < src ! j))"
    by (simp add: trail_error_def outside_trail_range_def Suc_le_eq)
  with inc show ?thesis by blast
qed

text \<open>
  C4, amended. Advancing repeats the header classification and the truncation check of
  dereferencing, and nothing else: \<open>operator++\<close> fails exactly when \<open>operator*\<close>
  fails at the cursor itself, with the same error; whenever \<open>operator*\<close> succeeds,
  \<open>operator++\<close> succeeds; and on success \<open>operator++\<close> moves the cursor forward by
  the total byte length of the sequence and leaves the end marker alone. It does not
  look at the trailing bytes: whenever the header is valid, the sequence is not
  truncated and one of its trailing bytes is outside \<open>[0x80, 0xBF]\<close>,
  \<open>operator++\<close> succeeds and \<open>operator*\<close> throws \<open>Illegal trail byte\<close> at
  the offset of the first such byte.
\<close>

theorem advance_checks_header_only:
  "((operator_inc src it = Inl e) =
      (operator_star src it = Inl e \<and> failure_position e = m_begin it)) \<and>
   (operator_star src it = Inr cp \<longrightarrow> (\<exists>it'. operator_inc src it = Inr it')) \<and>
   (operator_inc src it = Inr it' \<longrightarrow>
      1 \<le> compute_byte_count (src ! m_begin it) \<and>
      it' = it\<lparr>m_begin := m_begin it + nat (compute_byte_count (src ! m_begin it))\<rparr>) \<and>
   (m_begin it < m_end it \<and> m_end it \<le> length src \<and>
    compute_byte_count (src ! m_begin it) \<noteq> -1 \<and>
    compute_byte_count (src ! m_begin it) \<le> int (m_end it) - int (m_begin it) \<and>
    m_begin it < k \<and> int k < int (m_begin it) + compute_byte_count (src ! m_begin it) \<and>
    (src ! k < 0x80 \<or> 0xBF < src ! k) \<longrightarrow>
      operator_inc src it =
        Inr (it\<lparr>m_begin := m_begin it + nat (compute_byte_count (src ! m_begin it))\<rparr>) \<and>
      (\<exists>k'. m_begin it < k' \<and> k' \<le> k \<and>
         operator_star src it = Inl (utf_positioned_error k' ''Illegal trail byte'') \<and>
         (src ! k' < 0x80 \<or> 0xBF < src ! k') \<and>
         (\<forall>j. m_begin it < j \<and> j < k' \<longrightarrow> \<not> (src ! j < 0x80 \<or> 0xBF < src ! j))))"
  using operator_inc_fails_iff [of src it e] operator_star_Inr_inc [of src it cp]
    operator_inc_moves [of src it it'] bad_trailing_byte_only [of it src k]
  by blast

text \<open>
  C4, as stated, fails: on the bytes \<open>C2 FF\<close>, whose only defect is the trailing
  byte, \<open>operator++\<close> succeeds and moves the cursor to the end, while \<open>operator*\<close>
  throws at offset 1.
\<close>

theorem advance_skips_bad_trailing_byte:
  "operator_inc [0xC2, 0xFF] (range_begin [0xC2, 0xFF]) = Inr \<lparr>m_begin = 2, m_end = 2\<rparr> \<and>
   operator_star [0xC2, 0xFF] (range_begin [0xC2, 0xFF]) =
     Inl (utf_positioned_error 1 ''Illegal trail byte'')"
  by code_simp

text \<open>
  The amended statement at \<open>E0 A0 80\<close>, where both succeed, at the truncated
  \<open>F0 90 80\<close>, where both fail at offset 0, and at \<open>E0 A0 FF\<close>, whose second
  trailing byte is outside the range: \<open>operator++\<close> moves to the end and
  \<open>operator*\<close> throws at offset 2.
\<close>

theorem advance_checks_header_only_witness:
  "operator_star [0xE0, 0xA0, 0x80] (range_begin [0xE0, 0xA0, 0x80]) = Inr 0x800 \<and>
   compute_byte_count ([0xE0, 0xA0, 0x80] ! 0) = 3 \<and>
   operator_inc [0xE0, 0xA0, 0x80] (range_begin [0xE0, 0xA0, 0x80]) =
     Inr \<lparr>m_begin = 3, m_end = 3\<rparr> \<and>
   operator_inc [0xF0, 0x90, 0x80] (range_begin [0xF0, 0x90, 0x80]) =
     Inl (utf_positioned_error 0 ''Length in header byte is wrong'') \<and>
   operator_star [0xF0, 0x90, 0x80] (range_begin [0xF0, 0x90, 0x80]) =
     Inl (utf_positioned_error 0 ''Length in header byte is wrong'') \<and>
   (0xBF :: char8_t) < [0xE0, 0xA0, 0xFF] ! 2 \<and>
   operator_inc [0xE0, 0xA0, 0xFF] (range_begin [0xE0, 0xA0, 0xFF]) =
     Inr \<lparr>m_begin = 3, m_end = 3\<rparr> \<and>
   operator_star [0xE0, 0xA0, 0xFF] (range_begin [0xE0, 0xA0, 0xFF]) =
     Inl (utf_positioned_error 2 ''Illegal trail byte'')"
proof -
  let ?a = "[0xE0, 0xA0, 0x80] :: char8_t list"
  let ?b = "[0xF0, 0x90, 0x80] :: char8_t list"
  let ?c = "[0xE0, 0xA0, 0xFF] :: char8_t list"
  let ?e = "utf_positioned_error 0 ''Length in header byte is wrong''"
  have star: "operator_star ?a (range_begin ?a) = Inr 0x800" by code_simp
  have cnt: "compute_byte_count (?a ! 0) = 3" by code_simp
  have inc_b: "operator_inc ?b (range_begin ?b) = Inl ?e" by code_simp
  from advance_checks_header_only
    [where src = ?a and it = "range_begin ?a" and e = ?e and cp = "0x800"
      and it' = "range_begin ?a" and k = 0] star
  obtain it' where inc: "operator_inc ?a (range_begin ?a) = Inr it'" by blast
  from advance_checks_header_only
    [where src = ?a and it = "range_begin ?a" and e = ?e and cp = "0x800"
      and it' = it' and k = 0] inc cnt
  have moved: "it' = \<lparr>m_begin = 3, m_end = 3\<rparr>" by (simp add: range_begin_def)
  from advance_checks_header_only
    [where src = ?b and it = "range_begin ?b" and e = ?e and cp = 0
      and it' = "range_begin ?b" and k = 0] inc_b
  have star_b: "operator_star ?b (range_begin ?b) = Inl ?e" by blast
  have cnt_c: "compute_byte_count (?c ! m_begin (range_begin ?c)) = 3" by code_simp
  have bad: "(0xBF :: char8_t) < ?c ! 2" by simp
  have good: "\<not> (?c ! 1 < 0x80 \<or> 0xBF < ?c ! 1)" by simp
  have hyp: "m_begin (range_begin ?c) < m_end (range_begin ?c) \<and>
      m_end (range_begin ?c) \<le> length ?c \<and>
      compute_byte_count (?c ! m_begin (range_begin ?c)) \<noteq> -1 \<and>
      compute_byte_count (?c ! m_begin (range_begin ?c)) \<le>
        int (m_end (range_begin ?c)) - int (m_begin (range_begin ?c)) \<and>
      m_begin (range_begin ?c) < 2 \<and>
      int 2 < int (m_begin (range_begin ?c)) + compute_byte_count (?c ! m_begin (range_begin ?c)) \<and>
      (?c ! 2 < 0x80 \<or> 0xBF < ?c ! 2)"
    unfolding cnt_c by (simp add: range_begin_def)
  from advance_checks_header_only
    [where src = ?c and it = "range_begin ?c" and e = ?e and cp = 0
      and it' = "range_begin ?c" and k = 2, THEN conjunct2, THEN conjunct2, THEN conjunct2,
      THEN mp, OF hyp]
  obtain k' where inc_c: "operator_inc ?c (range_begin ?c) =
      Inr ((range_begin ?c)\<lparr>m_begin := m_begin (range_begin ?c) +
        nat (compute_byte_count (?c ! m_begin (range_begin ?c)))\<rparr>)"
    and k': "m_begin (range_begin ?c) < k'" "k' \<le> 2"
      "operator_star ?c (range_begin ?c) = Inl (utf_positioned_error k' ''Illegal trail byte'')"
      "?c ! k' < 0x80 \<or> 0xBF < ?c ! k'"
    by blast
  from k'(1,2) have "k' = 1 \<or> k' = 2" by (auto simp: range_begin_def)
  with k'(4) good have "k' = 2" by auto
  with k'(3) have star_c: "operator_star ?c (range_begin ?c) =
      Inl (utf_positioned_error 2 ''Illegal trail byte'')" by simp
  from inc_c have inc_c': "operator_inc ?c (range_begin ?c) = Inr \<lparr>m_begin = 3, m_end = 3\<rparr>"
    unfolding cnt_c by (simp add: range_begin_def)
  from star cnt inc moved inc_b star_b bad inc_c' star_c show ?thesis by simp
qed

section \<open>The errors of the lazy decoder\<close>

lemma extract_rest_Inl:
  "extract_rest src b n cp = Inl e \<Longrightarrow> b + n \<le> length src \<Longrightarrow>
     \<exists>k. e = trail_error k \<and> b \<le> k \<and> k < b + n \<and> outside_trail_range (src ! k) \<and>
         (\<forall>j. b \<le> j \<and> j < k \<longrightarrow> \<not> outside_trail_range (src ! j))"
proof (induction src b n cp rule: extract_rest.induct)
  case (1 src b cp)
  then show ?case by simp
next
  case (2 src b n cp)
  show ?case
  proof (cases "outside_trail_range (src ! b)")
    case True
    with "2.prems" have "e = trail_error b"
      by (auto simp: trail_error_def outside_trail_range_def)
    with True show ?thesis by auto
  next
    case False
    with "2.prems" have run: "extract_rest src (Suc b) n
        (push_bit 6 cp OR ucast (src ! b AND 0x3F)) = Inl e"
      by (auto simp: outside_trail_range_def split: if_splits)
    from "2.prems" have "b < length src" by simp
    from "2.IH" [OF this _ run] False "2.prems"(2)
    obtain k where k: "e = trail_error k" "Suc b \<le> k" "k < Suc b + n"
      "outside_trail_range (src ! k)"
      "\<forall>j. Suc b \<le> j \<and> j < k \<longrightarrow> \<not> outside_trail_range (src ! j)"
      by (auto simp: outside_trail_range_def)
    have "\<forall>j. b \<le> j \<and> j < k \<longrightarrow> \<not> outside_trail_range (src ! j)"
    proof (intro allI impI)
      fix j assume "b \<le> j \<and> j < k"
      then have "j = b \<or> (Suc b \<le> j \<and> j < k)" by arith
      with False k(5) show "\<not> outside_trail_range (src ! j)" by blast
    qed
    with k show ?thesis by (intro exI [of _ k]) simp
  qed
qed

lemma operator_star_header_error:
  "m_begin it < length src \<Longrightarrow>
   compute_byte_count (src ! m_begin it) = -1 \<or>
     compute_byte_count (src ! m_begin it) > int (m_end it) - int (m_begin it) \<Longrightarrow>
   operator_star src it = Inl (header_error it)"
  by (auto simp: operator_star_def header_error_def Let_def)

lemma operator_star_Inl:
  assumes fail: "operator_star src it = Inl e"
    and wf: "m_begin it < m_end it" "m_end it \<le> length src"
  shows "(e = header_error it \<and>
           (compute_byte_count (src ! m_begin it) = -1 \<or>
            compute_byte_count (src ! m_begin it) > int (m_end it) - int (m_begin it))) \<or>
         (\<exists>k. e = trail_error k \<and> m_begin it < k \<and>
            int k < int (m_begin it) + compute_byte_count (src ! m_begin it) \<and>
            outside_trail_range (src ! k) \<and>
            (\<forall>j. m_begin it < j \<and> j < k \<longrightarrow> \<not> outside_trail_range (src ! j)))"
proof -
  define cnt where "cnt = compute_byte_count (src ! m_begin it)"
  from wf have inside: "m_begin it < length src" by simp
  show ?thesis
  proof (cases "cnt = -1 \<or> cnt > int (m_end it) - int (m_begin it)")
    case True
    with operator_star_header_error [OF inside] fail show ?thesis
      by (simp add: cnt_def)
  next
    case False
    with compute_byte_count_pos [of "src ! m_begin it"]
    have cnt: "1 \<le> cnt" "cnt \<le> int (m_end it) - int (m_begin it)"
      by (auto simp: cnt_def)
    from fail False inside
    have run: "extract_rest src (Suc (m_begin it)) (nat (cnt - 1))
        (ucast (src ! m_begin it AND drop_bit (nat (cnt + 1)) 0xFF)) = Inl e"
      by (auto simp: operator_star_def Let_def cnt_def split: if_splits)
    from cnt wf have "Suc (m_begin it) + nat (cnt - 1) \<le> length src" by simp
    from extract_rest_Inl [OF run this]
    obtain k where k: "e = trail_error k" "Suc (m_begin it) \<le> k"
      "k < Suc (m_begin it) + nat (cnt - 1)" "outside_trail_range (src ! k)"
      "\<forall>j. Suc (m_begin it) \<le> j \<and> j < k \<longrightarrow> \<not> outside_trail_range (src ! j)"
      by blast
    from k(3) cnt have "int k < int (m_begin it) + cnt" by simp
    with k show ?thesis unfolding cnt_def [symmetric]
      by (intro disjI2 exI [of _ k]) (simp add: Suc_le_eq)
  qed
qed


text \<open>
  C8, amended. Let the cursor of the iterator be inside its range, and the range inside
  the source. An invalid header byte and a truncated sequence both make \<open>operator*\<close>
  throw at the offset of the header byte, with one and the same message; and whenever
  \<open>operator*\<close> fails, the error is either that one, or the message
  \<open>Illegal trail byte\<close> at the offset of the first byte after the header that is
  outside \<open>[0x80, 0xBF]\<close>, an offset inside the sequence. The error has a position
  and a message and no other kind.
\<close>

theorem operator_star_failures:
  assumes "m_begin it < m_end it" and "m_end it \<le> length src"
  shows
    "(compute_byte_count (src ! m_begin it) = -1 \<or>
      compute_byte_count (src ! m_begin it) > int (m_end it) - int (m_begin it) \<longrightarrow>
        operator_star src it =
          Inl (utf_positioned_error (m_begin it) ''Length in header byte is wrong'')) \<and>
     (operator_star src it = Inl e \<longrightarrow>
        (e = utf_positioned_error (m_begin it) ''Length in header byte is wrong'' \<and>
           (compute_byte_count (src ! m_begin it) = -1 \<or>
            compute_byte_count (src ! m_begin it) > int (m_end it) - int (m_begin it))) \<or>
        (\<exists>k. e = utf_positioned_error k ''Illegal trail byte'' \<and> m_begin it < k \<and>
           int k < int (m_begin it) + compute_byte_count (src ! m_begin it) \<and>
           (src ! k < 0x80 \<or> 0xBF < src ! k) \<and>
           (\<forall>j. m_begin it < j \<and> j < k \<longrightarrow> \<not> (src ! j < 0x80 \<or> 0xBF < src ! j))))"
proof -
  from assms have inside: "m_begin it < length src" by simp
  show ?thesis
    using operator_star_header_error [OF inside] operator_star_Inl [OF _ assms, of e]
    unfolding header_error_def trail_error_def outside_trail_range_def
    by blast
qed

text \<open>
  C8, as stated, fails: a lone continuation byte and a truncated sequence raise the
  same error, with the same message, so nothing in it tells an invalid header from a
  truncated sequence.
\<close>

theorem header_and_truncation_same_error:
  "operator_star [0x80] (range_begin [0x80]) =
     Inl (utf_positioned_error 0 ''Length in header byte is wrong'') \<and>
   operator_star [0xF0, 0x90, 0x80] (range_begin [0xF0, 0x90, 0x80]) =
     Inl (utf_positioned_error 0 ''Length in header byte is wrong'')"
  by code_simp

text \<open>
  The amended statement at a lone continuation byte, at a sequence truncated after an
  ASCII byte (the error is at the offset 1 of its header), and at \<open>C2 FF\<close>.
\<close>

theorem operator_star_failures_witness:
  "operator_star [0x80] (range_begin [0x80]) =
     Inl (utf_positioned_error 0 ''Length in header byte is wrong'') \<and>
   operator_star [0x41, 0xF0, 0x90, 0x80] \<lparr>m_begin = 1, m_end = 4\<rparr> =
     Inl (utf_positioned_error 1 ''Length in header byte is wrong'') \<and>
   operator_star [0xC2, 0xFF] (range_begin [0xC2, 0xFF]) =
     Inl (utf_positioned_error 1 ''Illegal trail byte'') \<and>
   (0xBF :: char8_t) < [0xC2, 0xFF] ! 1"
proof -
  let ?a = "[0x80] :: char8_t list"
  let ?b = "[0x41, 0xF0, 0x90, 0x80] :: char8_t list"
  let ?c = "[0xC2, 0xFF] :: char8_t list"
  let ?e = "utf_positioned_error 1 ''Illegal trail byte''"
  have a: "compute_byte_count (?a ! m_begin (range_begin ?a)) = -1" by code_simp
  have b: "compute_byte_count (?b ! m_begin \<lparr>m_begin = 1, m_end = 4\<rparr>) = 4" by code_simp
  have c: "operator_star ?c (range_begin ?c) = Inl ?e" by code_simp
  have "operator_star ?a (range_begin ?a) =
      Inl (utf_positioned_error 0 ''Length in header byte is wrong'')"
    using operator_star_failures [of "range_begin ?a" ?a, THEN conjunct1] a
    by (simp add: range_begin_def)
  moreover have "operator_star ?b \<lparr>m_begin = 1, m_end = 4\<rparr> =
      Inl (utf_positioned_error 1 ''Length in header byte is wrong'')"
    using operator_star_failures [of "\<lparr>m_begin = 1, m_end = 4\<rparr>" ?b, THEN conjunct1] b
    by simp
  moreover have "(0xBF :: char8_t) < ?c ! 1"
    using operator_star_failures [of "range_begin ?c" ?c ?e, THEN conjunct2] c
    by (auto simp: range_begin_def)
  ultimately show ?thesis using c by simp
qed

section \<open>Round trip\<close>

lemma bit_below:
  fixes w :: "'a::len word"
  shows "w < 2 ^ n \<Longrightarrow> bit w i \<Longrightarrow> i < n"
proof -
  assume lt: "w < 2 ^ n" and b: "bit w i"
  from lt have "w AND mask n = w" by (rule less_mask_eq)
  then have "bit (w AND mask n) i" using b by simp
  then show "i < n" by (simp add: bit_simps)
qed

lemma consts8:
  "(0x1F :: char8_t) = mask 5" "(0x3F :: char8_t) = mask 6" "(0x0F :: char8_t) = mask 4"
  "(0x07 :: char8_t) = mask 3" "(0xC0 :: char8_t) = push_bit 6 (mask 2)"
  "(0xE0 :: char8_t) = push_bit 5 (mask 3)" "(0xF0 :: char8_t) = push_bit 4 (mask 4)"
  by (simp_all add: mask_eq_exp_minus_1 push_bit_eq_mult)

lemma bit_0x80:
  "bit (0x80 :: 'a::semiring_bit_operations) n = (possible_bit TYPE('a) n \<and> n = 7)"
proof -
  have "(0x80 :: 'a) = 2 ^ 7" by simp
  then show ?thesis by (simp only: bit_exp_iff)
qed

lemma consts32: "(0x3F :: char32_t) = mask 6"
  by (simp add: mask_eq_exp_minus_1)

text \<open>A trailing byte of the encoder is in the range of trailing bytes and yields its six bits.\<close>

lemma trail_enc:
  fixes x :: char32_t
  defines "t \<equiv> 0x80 OR ucast (x AND 0x3F) :: char8_t"
  shows "\<not> t < 0x80" "\<not> 0xBF < t" "ucast (t AND 0x3F) = (x AND 0x3F)"
proof -
  have b7: "bit t 7" and b6: "\<not> bit t 6"
    unfolding t_def consts32 by (simp_all add: bit_simps bit_0x80)
  from b7 show "\<not> t < 0x80" by (simp add: byte_ranges_bits)
  from b6 show "\<not> 0xBF < t" by (simp add: byte_ranges_bits)
  show "ucast (t AND 0x3F) = (x AND 0x3F)"
    unfolding t_def consts8 consts32
    by (rule bit_eqI) (auto simp: bit_simps bit_0x80)
qed

lemma utf8_trail_byte_enc:
  "utf8_trail_byte (0x80 OR ucast (x AND 0x3F)) acc = (True, push_bit 6 acc OR (x AND 0x3F))"
  by (simp add: utf8_trail_byte_def trail_enc)

text \<open>The header bytes of the encoder.\<close>

lemma header2_enc:
  fixes cp :: char32_t
  assumes "cp < 0x800"
  defines "h \<equiv> 0xC0 OR ucast (drop_bit 6 cp) :: char8_t"
  shows "\<not> h < 0x80" "\<not> h < 0xC0" "h < 0xE0" "ucast (h AND 0x1F) = drop_bit 6 cp"
proof -
  have b: "bit cp i \<Longrightarrow> i < 11" for i
    using bit_below [of cp 11 i] assms by simp
  have nb: "\<not> bit cp 11" using b [of 11] by auto
  have bits: "bit h 7" "bit h 6" "\<not> bit h 5"
    unfolding h_def consts8 using nb by (simp_all add: bit_simps)
  then show "\<not> h < 0x80" "\<not> h < 0xC0" "h < 0xE0" by (simp_all add: byte_ranges_bits)
  show "ucast (h AND 0x1F) = drop_bit 6 cp"
    unfolding h_def consts8
  proof (rule bit_eqI)
    fix n
    show "bit (ucast ((push_bit 6 (mask 2) OR ucast (drop_bit 6 cp) :: char8_t) AND mask 5) :: char32_t) n
        = bit (drop_bit 6 cp) n"
      using b [of "6 + n"] by (auto simp: bit_simps)
  qed
qed

lemma header3_enc:
  fixes cp :: char32_t
  assumes "cp < 0x10000"
  defines "h \<equiv> 0xE0 OR ucast (drop_bit 12 cp) :: char8_t"
  shows "\<not> h < 0x80" "\<not> h < 0xC0" "\<not> h < 0xE0" "h < 0xF0"
    "ucast (h AND 0x0F) = drop_bit 12 cp"
proof -
  have b: "bit cp i \<Longrightarrow> i < 16" for i
    using bit_below [of cp 16 i] assms by simp
  have nb: "\<not> bit cp 16" using b [of 16] by auto
  have bits: "bit h 7" "bit h 6" "bit h 5" "\<not> bit h 4"
    unfolding h_def consts8 using nb by (simp_all add: bit_simps)
  then show "\<not> h < 0x80" "\<not> h < 0xC0" "\<not> h < 0xE0" "h < 0xF0"
    by (simp_all add: byte_ranges_bits)
  show "ucast (h AND 0x0F) = drop_bit 12 cp"
    unfolding h_def consts8
  proof (rule bit_eqI)
    fix n
    show "bit (ucast ((push_bit 5 (mask 3) OR ucast (drop_bit 12 cp) :: char8_t) AND mask 4) :: char32_t) n
        = bit (drop_bit 12 cp) n"
      using b [of "12 + n"] by (auto simp: bit_simps)
  qed
qed

lemma header4_enc:
  fixes cp :: char32_t
  assumes "cp < 0x200000"
  defines "h \<equiv> 0xF0 OR ucast (drop_bit 18 cp) :: char8_t"
  shows "\<not> h < 0x80" "\<not> h < 0xC0" "\<not> h < 0xE0" "\<not> h < 0xF0" "h < 0xF8"
    "ucast (h AND 0x07) = drop_bit 18 cp"
proof -
  have b: "bit cp i \<Longrightarrow> i < 21" for i
    using bit_below [of cp 21 i] assms by simp
  have nb: "\<not> bit cp 21" using b [of 21] by auto
  have bits: "bit h 7" "bit h 6" "bit h 5" "bit h 4" "\<not> bit h 3"
    unfolding h_def consts8 using nb by (simp_all add: bit_simps)
  then show "\<not> h < 0x80" "\<not> h < 0xC0" "\<not> h < 0xE0" "\<not> h < 0xF0" "h < 0xF8"
    by (simp_all add: byte_ranges_bits)
  show "ucast (h AND 0x07) = drop_bit 18 cp"
    unfolding h_def consts8
  proof (rule bit_eqI)
    fix n
    show "bit (ucast ((push_bit 4 (mask 4) OR ucast (drop_bit 18 cp) :: char8_t) AND mask 3) :: char32_t) n
        = bit (drop_bit 18 cp) n"
      using b [of "18 + n"] by (auto simp: bit_simps)
  qed
qed

text \<open>Putting the six-bit groups back together.\<close>

lemma regroup:
  fixes cp :: char32_t
  shows "push_bit 6 (drop_bit (6 + k) cp) OR (drop_bit k cp AND 0x3F) = drop_bit k cp"
  unfolding consts32
proof (rule bit_eqI)
  fix n
  show "bit (push_bit 6 (drop_bit (6 + k) cp) OR (drop_bit k cp AND mask 6)) n =
      bit (drop_bit k cp) n"
    using bit_imp_le_length [of cp "k + n"]
    by (auto simp: bit_simps add.commute add.left_commute)
qed


lemma header1_enc:
  fixes cp :: char32_t
  assumes "cp < 0x80"
  defines "h \<equiv> ucast cp :: char8_t"
  shows "h < 0x80" "ucast h = cp"
proof -
  have b: "bit cp i \<Longrightarrow> i < 7" for i
    using bit_below [of cp 7 i] assms by simp
  have nb: "\<not> bit cp 7" using b [of 7] by auto
  then have "\<not> bit h 7" unfolding h_def by (simp add: bit_simps)
  then show "h < 0x80" by (simp add: byte_ranges_bits)
  show "ucast h = cp" unfolding h_def
  proof (rule bit_eqI)
    fix n
    show "bit (ucast (ucast cp :: char8_t) :: char32_t) n = bit cp n"
      using b [of n] by (auto simp: bit_simps)
  qed
qed

lemmas regroup0 = regroup [of 0, simplified]
lemmas regroup6 = regroup [of 6, simplified]
lemmas regroup12 = regroup [of 12, simplified]

lemma trail_loop_step:
  assumes "p < length src" and "src ! p = 0x80 OR ucast (drop_bit k cp AND 0x3F)"
  shows "trail_loop src p (Suc n) (drop_bit (6 + k) cp) =
     trail_loop src (Suc p) n (drop_bit k cp)"
proof -
  have "utf8_trail_byte (src ! p) (drop_bit (6 + k) cp) = (True, drop_bit k cp)"
    unfolding assms(2) utf8_trail_byte_enc regroup ..
  with assms(1) show ?thesis by simp
qed

lemma extract_rest_step:
  assumes "p < length src" and "src ! p = 0x80 OR ucast (drop_bit k cp AND 0x3F)"
  shows "extract_rest src p (Suc n) (drop_bit (6 + k) cp) =
     extract_rest src (Suc p) n (drop_bit k cp)"
proof -
  have "push_bit 6 (drop_bit (6 + k) cp) OR ucast (src ! p AND 0x3F) = drop_bit k cp"
    unfolding assms(2) trail_enc regroup ..
  moreover have "\<not> (src ! p < 0x80 \<or> 0xBF < src ! p)"
    unfolding assms(2) using trail_enc(1,2) [of "drop_bit k cp"] by simp
  ultimately show ?thesis using assms(1) by simp
qed

lemma trail_loop_enc2:
  assumes "length src = Suc (Suc p)" "src ! Suc p = 0x80 OR ucast (cp AND 0x3F)"
  shows "trail_loop src (Suc p) (Suc 0) (drop_bit 6 cp) = Decoded (Suc (Suc p)) cp"
  using trail_loop_step [of "Suc p" src 0 cp 0] assms by simp

lemma trail_loop_enc3:
  assumes "length src = Suc (Suc (Suc p))"
    "src ! Suc p = 0x80 OR ucast (drop_bit 6 cp AND 0x3F)"
    "src ! Suc (Suc p) = 0x80 OR ucast (cp AND 0x3F)"
  shows "trail_loop src (Suc p) (Suc (Suc 0)) (drop_bit 12 cp) = Decoded (Suc (Suc (Suc p))) cp"
  using trail_loop_step [of "Suc p" src 6 cp "Suc 0"]
    trail_loop_enc2 [of src "Suc p" cp] assms by simp

lemma trail_loop_enc4:
  assumes "length src = Suc (Suc (Suc (Suc p)))"
    "src ! Suc p = 0x80 OR ucast (drop_bit 12 cp AND 0x3F)"
    "src ! Suc (Suc p) = 0x80 OR ucast (drop_bit 6 cp AND 0x3F)"
    "src ! Suc (Suc (Suc p)) = 0x80 OR ucast (cp AND 0x3F)"
  shows "trail_loop src (Suc p) (Suc (Suc (Suc 0))) (drop_bit 18 cp) =
     Decoded (Suc (Suc (Suc (Suc p)))) cp"
  using trail_loop_step [of "Suc p" src 12 cp "Suc (Suc 0)"]
    trail_loop_enc3 [of src "Suc p" cp] assms by simp

lemma extract_rest_enc2:
  assumes "length src = Suc (Suc p)" "src ! Suc p = 0x80 OR ucast (cp AND 0x3F)"
  shows "extract_rest src (Suc p) (Suc 0) (drop_bit 6 cp) = Inr cp"
  using extract_rest_step [of "Suc p" src 0 cp 0] assms by simp

lemma extract_rest_enc3:
  assumes "length src = Suc (Suc (Suc p))"
    "src ! Suc p = 0x80 OR ucast (drop_bit 6 cp AND 0x3F)"
    "src ! Suc (Suc p) = 0x80 OR ucast (cp AND 0x3F)"
  shows "extract_rest src (Suc p) (Suc (Suc 0)) (drop_bit 12 cp) = Inr cp"
  using extract_rest_step [of "Suc p" src 6 cp "Suc 0"]
    extract_rest_enc2 [of src "Suc p" cp] assms by simp

lemma extract_rest_enc4:
  assumes "length src = Suc (Suc (Suc (Suc p)))"
    "src ! Suc p = 0x80 OR ucast (drop_bit 12 cp AND 0x3F)"
    "src ! Suc (Suc p) = 0x80 OR ucast (drop_bit 6 cp AND 0x3F)"
    "src ! Suc (Suc (Suc p)) = 0x80 OR ucast (cp AND 0x3F)"
  shows "extract_rest src (Suc p) (Suc (Suc (Suc 0))) (drop_bit 18 cp) = Inr cp"
  using extract_rest_step [of "Suc p" src 12 cp "Suc (Suc 0)"]
    extract_rest_enc3 [of src "Suc p" cp] assms by simp

lemma decode1:
  fixes cp :: char32_t
  assumes "cp < 0x80"
  defines "src \<equiv> [ucast cp :: char8_t]"
  shows "convert_decode src 0 = Decoded 1 cp" "operator_star src (range_begin src) = Inr cp"
    "operator_inc src (range_begin src) = Inr (range_end src)"
  using header1_enc [OF assms(1)]
  by (simp_all add: src_def convert_decode_def utf8_header_byte_def operator_star_def
      operator_inc_def range_begin_def range_end_def compute_byte_count_ranges)

lemma decode2:
  fixes cp :: char32_t
  assumes "cp < 0x800"
  defines "src \<equiv> [0xC0 OR ucast (drop_bit 6 cp), 0x80 OR ucast (cp AND 0x3F) :: char8_t]"
  shows "convert_decode src 0 = Decoded 2 cp" "operator_star src (range_begin src) = Inr cp"
    "operator_inc src (range_begin src) = Inr (range_end src)"
proof -
  have len: "length src = 2" by (simp add: src_def)
  have h: "\<not> src ! 0 < 0x80" "\<not> src ! 0 < 0xC0" "src ! 0 < 0xE0"
    "ucast (src ! 0 AND 0x1F) = drop_bit 6 cp"
    using header2_enc [OF assms(1)] by (simp_all add: src_def)
  have t: "trail_loop src (Suc 0) (Suc 0) (drop_bit 6 cp) = Decoded 2 cp"
    using trail_loop_enc2 [of src 0 cp] by (simp add: src_def)
  show "convert_decode src 0 = Decoded 2 cp"
    by (simp add: convert_decode_def utf8_header_byte_def h len t del: trail_loop.simps)
  have e: "extract_rest src (Suc 0) (Suc 0) (drop_bit 6 cp) = Inr cp"
    using extract_rest_enc2 [of src 0 cp] by (simp add: src_def)
  have c: "compute_byte_count (src ! 0) = 2"
    by (simp add: compute_byte_count_ranges h)
  show "operator_star src (range_begin src) = Inr cp"
    by (simp add: operator_star_def range_begin_def c len h e del: extract_rest.simps)
  show "operator_inc src (range_begin src) = Inr (range_end src)"
    by (simp add: operator_inc_def range_begin_def range_end_def c len)
qed

lemma decode3:
  fixes cp :: char32_t
  assumes "cp < 0x10000"
  defines "src \<equiv> [0xE0 OR ucast (drop_bit 12 cp), 0x80 OR ucast (drop_bit 6 cp AND 0x3F),
                  0x80 OR ucast (cp AND 0x3F) :: char8_t]"
  shows "convert_decode src 0 = Decoded 3 cp" "operator_star src (range_begin src) = Inr cp"
    "operator_inc src (range_begin src) = Inr (range_end src)"
proof -
  have len: "length src = 3" by (simp add: src_def)
  have h: "\<not> src ! 0 < 0x80" "\<not> src ! 0 < 0xC0" "\<not> src ! 0 < 0xE0" "src ! 0 < 0xF0"
    "ucast (src ! 0 AND 0x0F) = drop_bit 12 cp"
    using header3_enc [OF assms(1)] by (simp_all add: src_def)
  have t: "trail_loop src (Suc 0) 2 (drop_bit 12 cp) = Decoded 3 cp"
    using trail_loop_enc3 [of src 0 cp] by (simp add: src_def numeral_2_eq_2 numeral_3_eq_3)
  show "convert_decode src 0 = Decoded 3 cp"
    by (simp add: convert_decode_def utf8_header_byte_def h len t del: trail_loop.simps)
  have e: "extract_rest src (Suc 0) 2 (drop_bit 12 cp) = Inr cp"
    using extract_rest_enc3 [of src 0 cp] by (simp add: src_def numeral_2_eq_2)
  have c: "compute_byte_count (src ! 0) = 3"
    by (simp add: compute_byte_count_ranges h)
  show "operator_star src (range_begin src) = Inr cp"
    by (simp add: operator_star_def range_begin_def c len h e del: extract_rest.simps)
  show "operator_inc src (range_begin src) = Inr (range_end src)"
    by (simp add: operator_inc_def range_begin_def range_end_def c len)
qed

lemma decode4:
  fixes cp :: char32_t
  assumes "cp < 0x200000"
  defines "src \<equiv> [0xF0 OR ucast (drop_bit 18 cp), 0x80 OR ucast (drop_bit 12 cp AND 0x3F),
                  0x80 OR ucast (drop_bit 6 cp AND 0x3F), 0x80 OR ucast (cp AND 0x3F) :: char8_t]"
  shows "convert_decode src 0 = Decoded 4 cp" "operator_star src (range_begin src) = Inr cp"
    "operator_inc src (range_begin src) = Inr (range_end src)"
proof -
  have len: "length src = 4" by (simp add: src_def)
  have h: "\<not> src ! 0 < 0x80" "\<not> src ! 0 < 0xC0" "\<not> src ! 0 < 0xE0" "\<not> src ! 0 < 0xF0"
    "src ! 0 < 0xF8" "ucast (src ! 0 AND 0x07) = drop_bit 18 cp"
    using header4_enc [OF assms(1)] by (simp_all add: src_def)
  have t: "trail_loop src (Suc 0) 3 (drop_bit 18 cp) = Decoded 4 cp"
    using trail_loop_enc4 [of src 0 cp] by (simp add: src_def numeral_2_eq_2 numeral_3_eq_3)
  show "convert_decode src 0 = Decoded 4 cp"
    by (simp add: convert_decode_def utf8_header_byte_def h len t del: trail_loop.simps)
  have e: "extract_rest src (Suc 0) 3 (drop_bit 18 cp) = Inr cp"
    using extract_rest_enc4 [of src 0 cp] by (simp add: src_def numeral_2_eq_2 numeral_3_eq_3)
  have c: "compute_byte_count (src ! 0) = 4"
    by (simp add: compute_byte_count_ranges h)
  show "operator_star src (range_begin src) = Inr cp"
    by (simp add: operator_star_def range_begin_def c len h e del: extract_rest.simps)
  show "operator_inc src (range_begin src) = Inr (range_end src)"
    by (simp add: operator_inc_def range_begin_def range_end_def c len)
qed


lemma to_utf32_single:
  assumes "src \<noteq> []" and "operator_star src (range_begin src) = Inr cp"
    and "operator_inc src (range_begin src) = Inr (range_end src)"
  shows "to_utf32 push_back src [] = Inr [cp]"
proof -
  have "\<not> operator_eq (range_begin src) (range_end src)"
    using assms(1) by (simp add: operator_eq_def range_begin_def range_end_def)
  then have "ranges_copy push_back src (range_begin src) (range_end src) [] =
      ranges_copy push_back src (range_end src) (range_end src) [cp]"
    using assms(2,3)
    by (simp add: ranges_copy.simps [of _ _ "range_begin src"] push_back_def)
  also have "\<dots> = Inr [cp]"
    by (simp add: ranges_copy.simps [of _ _ "range_end src"] operator_eq_def)
  finally show ?thesis by (simp add: to_utf32_def)
qed

lemma word_below:
  fixes a :: char32_t
  shows "a \<le> 0x10FFFF \<Longrightarrow> a < 0x200000"
  by (simp add: word_le_nat_alt word_less_nat_alt)

text \<open>The decoders on the encoding of one code point.\<close>

lemma utf8_encode_decodes:
  assumes "cp \<le> 0x10FFFF"
  shows "operator_star (utf8_encode cp) (range_begin (utf8_encode cp)) = Inr cp \<and>
     convert_decode (utf8_encode cp) 0 = Decoded (length (utf8_encode cp)) cp \<and>
     operator_inc (utf8_encode cp) (range_begin (utf8_encode cp)) =
       Inr (range_end (utf8_encode cp)) \<and> utf8_encode cp \<noteq> []"
proof -
  have big: "cp < 0x200000" using assms by (rule word_below)
  show ?thesis
  proof (cases "cp < 0x80")
    case True
    with decode1 [OF True] show ?thesis by (simp add: utf8_encode_def)
  next
    case f1: False
    show ?thesis
    proof (cases "cp < 0x800")
      case True
      with f1 decode2 [OF True] show ?thesis by (simp add: utf8_encode_def)
    next
      case f2: False
      show ?thesis
      proof (cases "cp < 0x10000")
        case True
        with f1 f2 decode3 [OF True] show ?thesis by (simp add: utf8_encode_def)
      next
        case False
        with f1 f2 decode4 [OF big] show ?thesis by (simp add: utf8_encode_def)
      qed
    qed
  qed
qed

text \<open>
  C7. For every code point up to \<open>0x10FFFF\<close> outside the surrogate range, decoding
  its UTF-8 encoding yields the code point again: with \<open>operator*\<close> of the lazy
  decoder at the start of the range, with the decode step of \<open>convert\<close> (which
  consumes the whole encoding), and with \<open>to_utf32\<close> over the whole range.
\<close>

theorem utf8_round_trip:
  assumes "cp \<le> 0x10FFFF" and "\<not> (0xD800 \<le> cp \<and> cp \<le> 0xDFFF)"
  shows "operator_star (utf8_encode cp) (range_begin (utf8_encode cp)) = Inr cp \<and>
     convert_decode (utf8_encode cp) 0 = Decoded (length (utf8_encode cp)) cp \<and>
     to_utf32 push_back (utf8_encode cp) [] = Inr [cp]"
  using utf8_encode_decodes [OF assms(1)] to_utf32_single [of "utf8_encode cp" cp]
  by simp

text \<open>The statement at U+20AC, encoded as \<open>E2 82 AC\<close>.\<close>

theorem utf8_round_trip_witness:
  "(0x20AC :: char32_t) \<le> 0x10FFFF \<and>
   \<not> (0xD800 \<le> (0x20AC :: char32_t) \<and> (0x20AC :: char32_t) \<le> 0xDFFF) \<and>
   utf8_encode 0x20AC = [0xE2, 0x82, 0xAC] \<and>
   operator_star [0xE2, 0x82, 0xAC] (range_begin [0xE2, 0x82, 0xAC]) = Inr 0x20AC \<and>
   convert_decode [0xE2, 0x82, 0xAC] 0 = Decoded 3 0x20AC \<and>
   to_utf32 push_back [0xE2, 0x82, 0xAC] [] = Inr [0x20AC]"
proof -
  have enc: "utf8_encode 0x20AC = [0xE2, 0x82, 0xAC]" by (simp add: utf8_encode_def)
  have r: "(0x20AC :: char32_t) \<le> 0x10FFFF"
    "\<not> (0xD800 \<le> (0x20AC :: char32_t) \<and> (0x20AC :: char32_t) \<le> 0xDFFF)" by simp_all
  from utf8_round_trip [OF r] enc r show ?thesis by simp
qed

section \<open>Valid UTF-8 sequences\<close>

text \<open>
  A sequence decoded inside a longer source: the bytes before and after it do not
  change what \<open>operator*\<close> and \<open>operator++\<close> do at its start.
\<close>

lemma extract_rest_embedded:
  "extract_rest enc b n acc = Inr cp \<Longrightarrow>
     extract_rest (pre @ enc @ post) (length pre + b) n acc = Inr cp"
proof (induction enc b n acc rule: extract_rest.induct)
  case (1 src b acc)
  then show ?case by simp
next
  case (2 src b n acc)
  from "2.prems" have inside: "b < length src"
    by (simp split: if_splits)
  then have byte: "(pre @ src @ post) ! (length pre + b) = src ! b"
    by (simp add: nth_append)
  from "2.prems" inside have ok: "\<not> (src ! b < 0x80 \<or> 0xBF < src ! b)"
    by (simp split: if_splits)
  with "2.prems" inside
  have "extract_rest src (Suc b) n (push_bit 6 acc OR ucast (src ! b AND 0x3F)) = Inr cp"
    by simp
  from "2.IH" [OF inside ok this] inside ok byte show ?case by simp
qed

lemma operator_star_embedded:
  assumes "operator_star enc (range_begin enc) = Inr cp"
  shows "operator_star (pre @ enc @ post)
     \<lparr>m_begin = length pre, m_end = length (pre @ enc @ post)\<rparr> = Inr cp"
proof -
  define whole where "whole = pre @ enc @ post"
  let ?cnt = "compute_byte_count (enc ! 0)"
  from assms have ne: "0 < length enc"
    by (simp add: operator_star_def range_begin_def split: if_splits)
  then have byte: "whole ! length pre = enc ! 0"
    by (simp add: whole_def nth_append)
  from ne have inside: "length pre < length whole" by (simp add: whole_def)
  from assms ne have ok: "\<not> (?cnt = -1 \<or> ?cnt > int (length enc))"
    by (auto simp: operator_star_def range_begin_def Let_def split: if_splits)
  then have ok': "\<not> (?cnt = -1 \<or> ?cnt > int (length whole) - int (length pre))"
    by (simp add: whole_def)
  have "(if ?cnt = 1 then Inr (ucast (enc ! 0))
         else extract_rest enc (Suc 0) (nat (?cnt - 1))
                (ucast (enc ! 0 AND drop_bit (nat (?cnt + 1)) 0xFF))) = Inr cp"
    using assms ne ok
    by (simp add: operator_star_def range_begin_def Let_def split: if_splits)
  then have "(if ?cnt = 1 then Inr (ucast (enc ! 0))
         else extract_rest whole (Suc (length pre)) (nat (?cnt - 1))
                (ucast (enc ! 0 AND drop_bit (nat (?cnt + 1)) 0xFF))) = Inr cp"
    using extract_rest_embedded [of enc "Suc 0" "nat (?cnt - 1)" _ cp pre post]
    by (simp add: whole_def split: if_splits)
  then show ?thesis
    using inside ok' byte
    by (simp add: operator_star_def Let_def whole_def [symmetric] split: if_splits)
qed

lemma operator_inc_embedded:
  assumes "operator_inc enc (range_begin enc) = Inr (range_end enc)"
  shows "operator_inc (pre @ enc @ post)
     \<lparr>m_begin = length pre, m_end = length (pre @ enc @ post)\<rparr> =
     Inr \<lparr>m_begin = length pre + length enc, m_end = length (pre @ enc @ post)\<rparr>"
proof -
  from assms have ne: "0 < length enc"
    by (simp add: operator_inc_def range_begin_def split: if_splits)
  then have byte: "(pre @ enc @ post) ! length pre = enc ! 0"
    by (simp add: nth_append)
  define cnt where "cnt = compute_byte_count (enc ! 0)"
  from assms ne have ok: "\<not> (cnt = -1 \<or> cnt > int (length enc))" "nat cnt = length enc"
    by (auto simp: operator_inc_def range_begin_def range_end_def Let_def cnt_def
        split: if_splits)
  with ne byte show ?thesis
    by (auto simp: operator_inc_def Let_def cnt_def [symmetric])
qed


text \<open>
  The encodings of code points up to \<open>0x10FFFF\<close> in a row: the loop of
  \<open>std::ranges::copy\<close> writes the code points one after the other.
\<close>

lemma ranges_copy_valid:
  assumes "\<forall>cp\<in>set cps. cp \<le> 0x10FFFF"
  shows "ranges_copy assign (pre @ concat (map utf8_encode cps))
      \<lparr>m_begin = length pre, m_end = length (pre @ concat (map utf8_encode cps))\<rparr>
      (range_end (pre @ concat (map utf8_encode cps))) out =
    assign_all assign cps out"
  using assms
proof (induction cps arbitrary: pre out)
  case Nil
  show ?case
    by (simp add: ranges_copy.simps [of _ pre] operator_eq_def range_end_def)
next
  case (Cons cp cps)
  define enc where "enc = utf8_encode cp"
  define post where "post = concat (map utf8_encode cps)"
  define whole where "whole = pre @ enc @ post"
  define first_it where "first_it = \<lparr>m_begin = length pre, m_end = length whole\<rparr>"
  define next_it where "next_it = \<lparr>m_begin = length pre + length enc, m_end = length whole\<rparr>"
  have whole: "pre @ concat (map utf8_encode (cp # cps)) = whole"
    by (simp add: whole_def enc_def post_def)
  from Cons.prems have cp: "cp \<le> 0x10FFFF" and rest: "\<forall>cp\<in>set cps. cp \<le> 0x10FFFF"
    by simp_all
  from utf8_encode_decodes [OF cp]
  have star0: "operator_star enc (range_begin enc) = Inr cp"
    and inc0: "operator_inc enc (range_begin enc) = Inr (range_end enc)"
    and ne: "enc \<noteq> []"
    by (simp_all add: enc_def)
  have star: "operator_star whole first_it = Inr cp"
    using operator_star_embedded [OF star0, of pre post]
    by (simp add: whole_def first_it_def)
  have inc: "operator_inc whole first_it = Inr next_it"
    using operator_inc_embedded [OF inc0, of pre post]
    by (simp add: whole_def first_it_def next_it_def)
  have neq: "\<not> operator_eq first_it (range_end whole)"
    using ne by (simp add: operator_eq_def first_it_def range_end_def whole_def)
  have IH: "ranges_copy assign whole next_it (range_end whole) out' =
      assign_all assign cps out'" for out'
    using Cons.IH [OF rest, of "pre @ enc" out']
    by (simp add: whole_def next_it_def post_def)
  show ?case
    unfolding whole first_it_def [symmetric]
    by (subst ranges_copy.simps) (simp add: neq star inc IH split: sum.splits)
qed

lemma to_utf32_valid:
  assumes "\<forall>cp\<in>set cps. cp \<le> 0x10FFFF"
  shows "to_utf32 assign (concat (map utf8_encode cps)) out = assign_all assign cps out"
  using ranges_copy_valid [OF assms, of assign "[]" out]
  by (simp add: to_utf32_def range_begin_def)

lemma assign_all_push_back: "assign_all push_back cps out = Inr (out @ cps)"
  by (induction cps arbitrary: out) (simp_all add: push_back_def)

lemma assign_all_to_utf16_iter:
  "\<forall>cp\<in>set cps. cp \<le> 0x10FFFF \<Longrightarrow>
     \<exists>out'. assign_all to_utf16_iter_append cps out = Inr out'"
proof (induction cps arbitrary: out)
  case Nil
  then show ?case by simp
next
  case (Cons cp cps)
  then have "cp \<le> 0x10FFFF" by simp
  then have "\<exists>out1. to_utf16_iter_append out cp = Inr out1"
    by (cases "cp \<le> 0xFFFF") (simp_all add: to_utf16_iter_append_def Let_def)
  then obtain out1 where "to_utf16_iter_append out cp = Inr out1" ..
  with Cons show ?case by simp
qed

lemma valid_sequence_round_trip:
  "\<forall>cp\<in>set cps. cp \<le> 0x10FFFF \<Longrightarrow>
     to_utf32 push_back (concat (map utf8_encode cps)) [] = Inr cps"
  by (simp add: to_utf32_valid assign_all_push_back)

section \<open>Size agreement\<close>

lemma size_body_append:
  "to_utf16_size_body beg sz cp =
     (case to_utf16_iter_append out cp of
        Inl e \<Rightarrow> Inl (utf_positioned_error beg ''Out of UTF-16 range'')
      | Inr out' \<Rightarrow> Inr (sz + (int (length out') - int (length out))))"
  by (simp add: to_utf16_size_body_def to_utf16_iter_append_def Let_def)

lemma loops_agree:
  "(case ranges_copy to_utf16_iter_append src first_it last_it out of
      Inl e \<Rightarrow> isl (to_utf16_size_u8_loop src first_it last_it sz)
    | Inr out' \<Rightarrow> to_utf16_size_u8_loop src first_it last_it sz =
        Inr (sz + (int (length out') - int (length out))))"
proof (induction src first_it last_it sz arbitrary: out rule: to_utf16_size_u8_loop.induct)
  case (1 src beg end_it sz)
  note copy = ranges_copy.simps [of to_utf16_iter_append src beg end_it out]
  note size = to_utf16_size_u8_loop.simps [of src beg end_it sz]
  show ?case
  proof (cases "operator_eq beg end_it")
    case True
    then show ?thesis by (simp add: copy size)
  next
    case ne: False
    show ?thesis
    proof (cases "operator_star src beg")
      case (Inl e)
      with ne show ?thesis by (simp add: copy size)
    next
      case star: (Inr cp)
      show ?thesis
      proof (cases "to_utf16_iter_append out cp")
        case (Inl e)
        with ne star show ?thesis
          by (simp add: copy size size_body_append [of _ _ cp out])
      next
        case app: (Inr out1)
        define sz1 where "sz1 = sz + (int (length out1) - int (length out))"
        have body: "to_utf16_size_body (m_begin beg) sz cp = Inr sz1"
          by (simp add: size_body_append [of _ _ cp out] app sz1_def)
        show ?thesis
        proof (cases "operator_inc src beg")
          case (Inl e)
          with ne star app body show ?thesis by (simp add: copy size)
        next
          case inc: (Inr beg1)
          have eq1: "ranges_copy to_utf16_iter_append src beg end_it out =
              ranges_copy to_utf16_iter_append src beg1 end_it out1"
            using ne star app inc by (simp add: copy)
          have eq2: "to_utf16_size_u8_loop src beg end_it sz =
              to_utf16_size_u8_loop src beg1 end_it sz1"
            using ne star body inc by (simp add: size)
          from "1.IH" [OF ne star body inc, of out1]
          show ?thesis unfolding eq1 eq2
            by (auto simp: sz1_def split: sum.splits)
        qed
      qed
    qed
  qed
qed

text \<open>
  C6. Whenever the encode pass \<open>to_utf16\<close> over a source completes, \<open>to_utf16_size\<close>
  over the same source returns the number of units that the pass wrote to its sink; and
  whenever \<open>to_utf16_size\<close> returns a count, the encode pass completes and writes
  that many units. On valid UTF-8, which is the encodings of code points up to
  \<open>0x10FFFF\<close> outside the surrogate range in a row, the encode pass completes, and
  \<open>to_utf16_size\<close> returns the number of units it writes.
\<close>

theorem size_agreement:
  "(to_utf16 src [] = Inr out \<longrightarrow> to_utf16_size src = Inr (int (length out))) \<and>
   (to_utf16_size src = Inr n \<longrightarrow> (\<exists>out. to_utf16 src [] = Inr out \<and> int (length out) = n)) \<and>
   ((\<forall>cp\<in>set cps. cp \<le> 0x10FFFF \<and> \<not> (0xD800 \<le> cp \<and> cp \<le> 0xDFFF)) \<longrightarrow>
      (\<exists>out. to_utf16 (concat (map utf8_encode cps)) [] = Inr out \<and>
         to_utf16_size (concat (map utf8_encode cps)) = Inr (int (length out))))"
proof -
  have agree: "to_utf16 s [] = Inr out \<longrightarrow> to_utf16_size s = Inr (int (length out))"
    and count: "to_utf16_size s = Inr n \<longrightarrow>
      (\<exists>out. to_utf16 s [] = Inr out \<and> int (length out) = n)" for s out n
    using loops_agree [where src = s and first_it = "range_begin s"
        and last_it = "range_end s" and out = "[]" and sz = 0]
    by (auto simp: to_utf16_def to_utf32_def to_utf16_size_def split: sum.splits)
  have valid: "\<exists>out. to_utf16 (concat (map utf8_encode cps)) [] = Inr out \<and>
      to_utf16_size (concat (map utf8_encode cps)) = Inr (int (length out))"
    if "\<forall>cp\<in>set cps. cp \<le> 0x10FFFF \<and> \<not> (0xD800 \<le> cp \<and> cp \<le> 0xDFFF)"
  proof -
    from that have range: "\<forall>cp\<in>set cps. cp \<le> 0x10FFFF" by blast
    from assign_all_to_utf16_iter [OF range, of "[]"]
    obtain out where "assign_all to_utf16_iter_append cps [] = Inr out" ..
    then have "to_utf16 (concat (map utf8_encode cps)) [] = Inr out"
      by (simp add: to_utf16_def to_utf32_valid [OF range])
    with agree show ?thesis by blast
  qed
  from agree count valid show ?thesis by blast
qed

text \<open>The statement at the encodings of U+0041, U+0080 and U+10000 in a row.\<close>

theorem size_agreement_witness:
  "concat (map utf8_encode [0x41, 0x80, 0x10000]) =
     [0x41, 0xC2, 0x80, 0xF0, 0x90, 0x80, 0x80] \<and>
   to_utf16 [0x41, 0xC2, 0x80, 0xF0, 0x90, 0x80, 0x80] [] = Inr [0x41, 0x80, 0xD800, 0xDC00] \<and>
   to_utf16_size [0x41, 0xC2, 0x80, 0xF0, 0x90, 0x80, 0x80] = Inr 4"
proof -
  let ?cps = "[0x41, 0x80, 0x10000] :: char32_t list"
  let ?src = "[0x41, 0xC2, 0x80, 0xF0, 0x90, 0x80, 0x80] :: char8_t list"
  let ?out = "[0x41, 0x80, 0xD800, 0xDC00] :: char16_t list"
  have enc: "concat (map utf8_encode ?cps) = ?src" by (simp add: utf8_encode_def)
  have valid: "\<forall>cp\<in>set ?cps. cp \<le> 0x10FFFF \<and> \<not> (0xD800 \<le> cp \<and> cp \<le> 0xDFFF)"
    by simp
  have run: "to_utf16 ?src [] = Inr ?out" by code_simp
  from size_agreement [of ?src ?out 4 ?cps] valid enc
  obtain out where "to_utf16 ?src [] = Inr out" "to_utf16_size ?src = Inr (int (length out))"
    by auto
  with run have size: "to_utf16_size ?src = Inr 4" by simp
  from size_agreement [of ?src ?out 4 ?cps] size
  have "\<exists>out. to_utf16 ?src [] = Inr out \<and> int (length out) = 4" by blast
  with enc run size show ?thesis by simp
qed

section \<open>Overlong encodings\<close>

text \<open>
  C9. Neither decoder checks that an encoding is minimal: the two bytes \<open>C0 80\<close>, an
  overlong encoding of U+0000, are accepted by \<open>convert\<close> (in both modes, with one unit
  0 written) and by the lazy decoder, and both yield the code point 0.
\<close>

theorem overlong_C0_80_accepted:
  "convert [0xC0, 0x80] None = Returns 1 [] \<and>
   convert [0xC0, 0x80] (Some []) = Returns 1 [0] \<and>
   convert_decode [0xC0, 0x80] 0 = Decoded 2 0 \<and>
   operator_star [0xC0, 0x80] (range_begin [0xC0, 0x80]) = Inr 0 \<and>
   to_utf32 push_back [0xC0, 0x80] [] = Inr [0]"
  by code_simp

end
